theory Spec2Isabelle
  imports
    Main
    "HOL-Library.Char_ord"
    "HOL-Library.List_Lexorder"
    "HOL-Library.Multiset"
    "HOL-Library.Sublist"
begin

section \<open>The sync command of s5cmd (command/sync.go)\<close>

text \<open>
  A shallow embedding of \<^verbatim>\<open>command/sync.go\<close>. The file uses several packages whose
  sources are not part of the development (\<^verbatim>\<open>storage/url\<close>, \<^verbatim>\<open>storage\<close>,
  \<^verbatim>\<open>error\<close>, \<^verbatim>\<open>parallel\<close>, and the helpers \<^verbatim>\<open>generateCommand\<close>,
  \<^verbatim>\<open>printError\<close>, \<^verbatim>\<open>printDebug\<close>). Their operations are parameters of the
  model: every function below takes the operations it calls as arguments, and every
  theorem holds for all of them.

  The goroutine of \<^verbatim>\<open>Run\<close> that reads \<^verbatim>\<open>waiter.Err()\<close> is not part of the
  model: \<^verbatim>\<open>Run\<close> returns without receiving from \<^verbatim>\<open>errDoneCh\<close> and without
  \<^verbatim>\<open>waiter.Wait()\<close>, so what the goroutine has collected when \<^verbatim>\<open>Run\<close> reads
  \<^verbatim>\<open>merrorWaiter\<close> depends on the scheduling, which functions of lists do not
  express.

  Go strings are byte strings compared bytewise, which is the lexicographic order of
  \<^typ>\<open>string\<close> over the order of \<^typ>\<open>char\<close> by character code. A Go \<^verbatim>\<open>error\<close>
  value is represented by its \<^verbatim>\<open>Error()\<close> text, and a possibly nil error by an
  \<^typ>\<open>string option\<close>.
\<close>

subsection \<open>Data\<close>

type_synonym error = string

text \<open>
  The methods of \<^verbatim>\<open>*url.URL\<close> that \<^verbatim>\<open>sync.go\<close> calls. The type \<open>'u\<close> of URLs is
  left open.
\<close>

record 'u url_ops =
  IsRemote :: "'u \<Rightarrow> bool"
  IsPrefix :: "'u \<Rightarrow> bool"
  IsBucket :: "'u \<Rightarrow> bool"
  Base :: "'u \<Rightarrow> string"
  Relative :: "'u \<Rightarrow> string"
  Join :: "'u \<Rightarrow> string \<Rightarrow> 'u"
  Clone :: "'u \<Rightarrow> 'u"

text \<open>
  Modelled from the spec: the declaration of \<^verbatim>\<open>storage.ObjectType\<close> is missing; the
  data model gives an object the kind file or directory, and \<^verbatim>\<open>IsDir\<close> tells the
  two apart.
\<close>

datatype ObjectType = File | Directory

definition IsDir :: "ObjectType \<Rightarrow> bool" where
  "IsDir t = (t = Directory)"

text \<open>
  \<^verbatim>\<open>storage.Object\<close>, with the fields that \<^verbatim>\<open>sync.go\<close> reads. A storage class is
  a string (\<^verbatim>\<open>storage.StorageClass(c.String("storage-class"))\<close>). The lists of the
  code hold non-nil pointers to objects; the model holds the objects.
\<close>

record 'u Object =
  URL :: "'u"
  Type :: ObjectType
  StorageClass :: string
  Err :: "error option"

text \<open>
  What \<^verbatim>\<open>sync.go\<close> reads of a \<^verbatim>\<open>*cli.Context\<close>: the positional arguments, the
  flags by name and the name of the command.
\<close>

record cli_context =
  Args :: "string list"
  Bool :: "string \<Rightarrow> bool"
  String :: "string \<Rightarrow> string"
  CommandName :: string

text \<open>\<^verbatim>\<open>c.Args().Get(n)\<close>: the empty string when there is no such argument.\<close>

definition ArgsGet :: "cli_context \<Rightarrow> nat \<Rightarrow> string" where
  "ArgsGet c n = (if n < length (Args c) then Args c ! n else [])"

text \<open>
  The struct \<^verbatim>\<open>Sync\<close>. The field \<^verbatim>\<open>storageOpts\<close> is left out: it is only handed
  on to \<^verbatim>\<open>storage.NewClient\<close>, which is a parameter of the model.
\<close>

record Sync =
  src :: string
  dst :: string
  op :: string
  fullCommand :: string
  delete :: bool
  sizeOnly :: bool
  followSymlinks :: bool
  storageClass :: string
  raw :: bool
  srcRegion :: string
  dstRegion :: string

text \<open>
  \<^verbatim>\<open>NewSync\<close>; \<^verbatim>\<open>commandFromContext\<close> is defined in another file and is a
  parameter.
\<close>

definition NewSync :: "(cli_context \<Rightarrow> string) \<Rightarrow> cli_context \<Rightarrow> Sync" where
  "NewSync commandFromContext c =
     \<lparr>src = ArgsGet c 0,
      dst = ArgsGet c 1,
      op = CommandName c,
      fullCommand = commandFromContext c,
      delete = Bool c ''delete'',
      sizeOnly = Bool c ''size-only'',
      followSymlinks = (\<not> Bool c ''no-follow-symlinks''),
      storageClass = String c ''storage-class'',
      raw = Bool c ''raw'',
      srcRegion = String c ''source-region'',
      dstRegion = String c ''destination-region''\<rparr>"

text \<open>
  What the code prints or writes, in the order it does: \<^verbatim>\<open>printError\<close> (with the
  full command, the operation and the error), \<^verbatim>\<open>printDebug\<close> (with the operation,
  the error and the URLs), and a line written to the plan's writer with
  \<^verbatim>\<open>fmt.Fprintln\<close>.
\<close>

datatype 'u effect =
    PrintError string string error
  | PrintDebug string error "'u list"
  | Fprintln string

record 'u ObjectPair =
  src :: "'u Object"
  dst :: "'u Object"

subsection \<open>Path normalisation\<close>

text \<open>
  \<^verbatim>\<open>filepath.ToSlash\<close> of the Go library, for a host whose path separator is \<open>sep\<close>:
  the identity where the separator is the slash, and otherwise every separator is
  replaced by a slash.
\<close>

definition ToSlash :: "char \<Rightarrow> string \<Rightarrow> string" where
  "ToSlash sep path =
     (if sep = CHR ''/'' then path
      else map (\<lambda>c. if c = sep then CHR ''/'' else c) path)"

definition Backslash :: char where
  "Backslash = CHR 0x5C"

subsection \<open>compareObjects\<close>

text \<open>The variables of the loop of \<^verbatim>\<open>compareObjects\<close>.\<close>

record 'u cmp_state =
  iSrc :: int
  iDst :: int
  srcOnly :: "'u list"
  dstOnly :: "'u list"
  commonObj :: "'u ObjectPair list"

text \<open>
  One pass through the body of the loop, before the increments of the loop header are
  applied: \<open>None\<close> is the \<^verbatim>\<open>break\<close>. The local variables \<^verbatim>\<open>srcObject\<close> and
  \<^verbatim>\<open>dstObject\<close> are nil (\<open>None\<close>) when their side is exhausted or has been put
  back by the comparison. An index is decremented only in a pass whose end increments
  it again, so from the start at 0 no index is ever negative when an element is read.
\<close>

definition compareStep ::
  "'u url_ops \<Rightarrow> char \<Rightarrow> 'u Object list \<Rightarrow> 'u Object list \<Rightarrow> 'u cmp_state \<Rightarrow> 'u cmp_state option"
where
  "compareStep ops sep sourceObjects destObjects st =
     (let srcObject = (if iSrc st < int (length sourceObjects)
                       then Some (sourceObjects ! nat (iSrc st)) else None);
          srcName = (case srcObject of
                       Some obj \<Rightarrow> ToSlash sep (Relative ops (URL obj)) | None \<Rightarrow> []);
          dstObject = (if iDst st < int (length destObjects)
                       then Some (destObjects ! nat (iDst st)) else None);
          dstName = (case dstObject of
                       Some obj \<Rightarrow> ToSlash sep (Relative ops (URL obj)) | None \<Rightarrow> [])
      in if srcObject = None \<and> dstObject = None then None
         else
           let (srcObject, dstObject, st) =
                 (if srcObject \<noteq> None \<and> dstObject \<noteq> None then
                    (if srcName > dstName then
                       (None, dstObject, st\<lparr>iSrc := iSrc st - 1\<rparr>)
                     else if srcName = dstName then
                       (srcObject, dstObject,
                        st\<lparr>commonObj := commonObj st @
                              [\<lparr>src = the srcObject, dst = the dstObject\<rparr>]\<rparr>)
                     else
                       (srcObject, None, st\<lparr>iDst := iDst st - 1\<rparr>))
                  else (srcObject, dstObject, st));
               st = (case (srcObject, dstObject) of
                       (None, None) \<Rightarrow> st
                     | (None, Some d) \<Rightarrow> st\<lparr>dstOnly := dstOnly st @ [URL d]\<rparr>
                     | (Some s, None) \<Rightarrow> st\<lparr>srcOnly := srcOnly st @ [URL s]\<rparr>
                     | (Some s, Some d) \<Rightarrow> st)
           in Some (st\<lparr>iSrc := iSrc st + 1, iDst := iDst st + 1\<rparr>))"

text \<open>What is left of the two lists at a state of the loop.\<close>

definition remaining :: "'u Object list \<Rightarrow> 'u Object list \<Rightarrow> 'u cmp_state \<Rightarrow> nat" where
  "remaining sourceObjects destObjects st =
     nat (int (length sourceObjects) - iSrc st) + nat (int (length destObjects) - iDst st)"

lemma compareStep_remaining:
  assumes "compareStep ops sep sourceObjects destObjects st = Some st'"
  shows "remaining sourceObjects destObjects st' < remaining sourceObjects destObjects st"
  using assms
  by (auto simp: compareStep_def remaining_def Let_def split: if_splits)

function compareLoop ::
  "'u url_ops \<Rightarrow> char \<Rightarrow> 'u Object list \<Rightarrow> 'u Object list \<Rightarrow> 'u cmp_state
   \<Rightarrow> 'u list \<times> 'u list \<times> 'u ObjectPair list"
where
  "compareLoop ops sep sourceObjects destObjects st =
     (case compareStep ops sep sourceObjects destObjects st of
        None \<Rightarrow> (srcOnly st, dstOnly st, commonObj st)
      | Some st' \<Rightarrow> compareLoop ops sep sourceObjects destObjects st')"
  by pat_completeness auto
termination
  by (relation "measure (\<lambda>(ops, sep, sourceObjects, destObjects, st).
        remaining sourceObjects destObjects st)")
     (auto simp: compareStep_remaining)

declare compareLoop.simps [simp del]

text \<open>
  \<^verbatim>\<open>sort.SliceStable\<close> with the comparison \<^verbatim>\<open>a.URL.Relative() < b.URL.Relative()\<close>
  is the stable sort by the key \<^verbatim>\<open>URL.Relative()\<close>, here \<^const>\<open>sort_key\<close>. The
  comparison is on the relative paths as they are; \<^const>\<open>ToSlash\<close> is applied in the
  loop only.
\<close>

definition sortObjects :: "'u url_ops \<Rightarrow> 'u Object list \<Rightarrow> 'u Object list" where
  "sortObjects ops objects = sort_key (\<lambda>obj. Relative ops (URL obj)) objects"

definition compareObjects ::
  "'u url_ops \<Rightarrow> char \<Rightarrow> 'u Object list \<Rightarrow> 'u Object list
   \<Rightarrow> 'u list \<times> 'u list \<times> 'u ObjectPair list"
where
  "compareObjects ops sep sourceObjects destObjects =
     (let sourceObjects = sortObjects ops sourceObjects;
          destObjects = sortObjects ops destObjects
      in compareLoop ops sep sourceObjects destObjects
           \<lparr>iSrc = 0, iDst = 0, srcOnly = [], dstOnly = [], commonObj = []\<rparr>)"

text \<open>
  The key of a URL and of an object in the loop: the relative path with forward slashes
  (\<^verbatim>\<open>srcName\<close> and \<^verbatim>\<open>dstName\<close>).
\<close>

definition urlKey :: "'u url_ops \<Rightarrow> char \<Rightarrow> 'u \<Rightarrow> string" where
  "urlKey ops sep u = ToSlash sep (Relative ops u)"

definition relativeKey :: "'u url_ops \<Rightarrow> char \<Rightarrow> 'u Object \<Rightarrow> string" where
  "relativeKey ops sep obj = urlKey ops sep (URL obj)"

subsection \<open>generateDestinationURL\<close>

definition generateDestinationURL :: "'u url_ops \<Rightarrow> 'u \<Rightarrow> 'u \<Rightarrow> bool \<Rightarrow> 'u" where
  "generateDestinationURL ops srcurl dsturl isBatch =
     (let objname = Base ops srcurl;
          objname = (if isBatch then Relative ops srcurl else objname)
      in if IsRemote ops dsturl then
           (if IsPrefix ops dsturl \<or> IsBucket ops dsturl then Join ops dsturl objname
            else Clone ops dsturl)
         else Join ops dsturl objname)"

subsection \<open>shouldSkipObject\<close>

text \<open>
  The operations of the packages \<^verbatim>\<open>error\<close> and \<^verbatim>\<open>storage\<close> that the skip filter
  calls, and the text that \<^verbatim>\<open>%v\<close> prints for an object.
\<close>

record 'u object_ops =
  IsCancelation :: "error option \<Rightarrow> bool"
  IsGlacier :: "string \<Rightarrow> bool"
  ObjectString :: "'u Object \<Rightarrow> string"

text \<open>\<^verbatim>\<open>fmt.Errorf("object '%v' is on Glacier storage", object)\<close>\<close>

definition glacierError :: "'u object_ops \<Rightarrow> 'u Object \<Rightarrow> error" where
  "glacierError oo object =
     ''object '' @ [CHR 0x27] @ ObjectString oo object @ [CHR 0x27] @ '' is on Glacier storage''"

text \<open>The result is the returned flag, with what the call has printed.\<close>

definition shouldSkipObject ::
  "'u object_ops \<Rightarrow> Sync \<Rightarrow> 'u Object \<Rightarrow> bool \<Rightarrow> bool \<times> 'u effect list"
where
  "shouldSkipObject oo s object verbose =
     (if IsDir (Type object) \<or> IsCancelation oo (Err object) then (True, [])
      else case Err object of
        Some err \<Rightarrow>
          (True, if verbose then [PrintError (fullCommand s) (op s) err] else [])
      | None \<Rightarrow>
          if IsGlacier oo (StorageClass object) then
            (True, if verbose
                   then [PrintError (fullCommand s) (op s) (glacierError oo object)]
                   else [])
          else (False, []))"

subsection \<open>getSourceAndDestinationObjects\<close>

text \<open>
  The loop over a listing: the objects that the filter keeps, in the order of the
  listing, and everything the filter has printed.
\<close>

fun collectObjects ::
  "'u object_ops \<Rightarrow> Sync \<Rightarrow> bool \<Rightarrow> 'u Object list
   \<Rightarrow> 'u Object list \<times> 'u effect list \<Rightarrow> 'u Object list \<times> 'u effect list"
where
  "collectObjects oo s verbose [] (objects, out) = (objects, out)"
| "collectObjects oo s verbose (object # rest) (objects, out) =
     (case shouldSkipObject oo s object verbose of
        (True, printed) \<Rightarrow> collectObjects oo s verbose rest (objects, out @ printed)
      | (False, printed) \<Rightarrow>
          collectObjects oo s verbose rest (objects @ [object], out @ printed))"

text \<open>
  \<^verbatim>\<open>storage.NewClient\<close> and \<^verbatim>\<open>url.New\<close> can fail. A storage client is
  represented by its method \<^verbatim>\<open>List\<close>, from a URL and the flag
  \<^verbatim>\<open>followSymlinks\<close> to the objects that the channel delivers.
\<close>

type_synonym 'u client = "'u \<Rightarrow> bool \<Rightarrow> 'u Object list"

record 'u storage_ops =
  NewClient :: "'u \<Rightarrow> error + 'u client"
  url_New :: "string \<Rightarrow> error + 'u"

text \<open>
  The two listings run concurrently on lists of their own and are joined before the
  function returns, so the result is that of running one after the other. Only the
  source side prints.
\<close>

definition getSourceAndDestinationObjects ::
  "'u storage_ops \<Rightarrow> 'u object_ops \<Rightarrow> Sync \<Rightarrow> 'u \<Rightarrow> 'u
   \<Rightarrow> error + ('u Object list \<times> 'u Object list \<times> 'u effect list)"
where
  "getSourceAndDestinationObjects sto oo s srcurl dsturl =
     (case NewClient sto srcurl of
        Inl err \<Rightarrow> Inl err
      | Inr sourceClient \<Rightarrow>
     (case NewClient sto dsturl of
        Inl err \<Rightarrow> Inl err
      | Inr destClient \<Rightarrow>
     (let (sourceObjects, out) =
            collectObjects oo s True (sourceClient srcurl (followSymlinks s)) ([], []);
          destinationURLPath =
            (if suffix ''/'' (Sync.dst s) then Sync.dst s @ ''*'' else Sync.dst s @ ''/*'')
      in case url_New sto destinationURLPath of
           Inl err \<Rightarrow> Inl err
         | Inr destObjectsURL \<Rightarrow>
             (let (destObjects, out) =
                    collectObjects oo s False (destClient destObjectsURL False) ([], out)
              in Inr (sourceObjects, destObjects, out)))))"

subsection \<open>planRun\<close>

text \<open>
  The values of the map \<^verbatim>\<open>defaultFlags\<close>, of type \<^verbatim>\<open>map[string]interface{}\<close>.
\<close>

datatype flag_value = FlagBool bool | FlagString string | FlagInt int

type_synonym flags = "string \<rightharpoonup> flag_value"

definition defaultFlags :: flags where
  "defaultFlags = [''raw'' \<mapsto> FlagBool True]"

text \<open>
  \<^verbatim>\<open>generateCommand\<close> (in another file) makes the text of a command from the name of
  the command, the default flags and the URLs, or fails. The strategy's
  \<^verbatim>\<open>ShouldSync\<close> returns an error or nil.
\<close>

type_synonym 'u generateCommand = "string \<Rightarrow> flags \<Rightarrow> 'u list \<Rightarrow> error + string"

type_synonym 'u SyncStrategy = "'u Object \<Rightarrow> 'u Object \<Rightarrow> error option"

text \<open>The loop over the URLs that are only in the source.\<close>

fun planOnlySource ::
  "'u url_ops \<Rightarrow> 'u generateCommand \<Rightarrow> Sync \<Rightarrow> 'u \<Rightarrow> bool \<Rightarrow> 'u list
   \<Rightarrow> 'u effect list \<Rightarrow> 'u effect list"
where
  "planOnlySource ops gen s dsturl isBatch [] w = w"
| "planOnlySource ops gen s dsturl isBatch (srcurl # rest) w =
     (let curDestURL = generateDestinationURL ops srcurl dsturl isBatch
      in case gen ''cp'' defaultFlags [srcurl, curDestURL] of
           Inl err \<Rightarrow>
             planOnlySource ops gen s dsturl isBatch rest
               (w @ [PrintDebug (op s) err [srcurl, curDestURL]])
         | Inr command \<Rightarrow>
             planOnlySource ops gen s dsturl isBatch rest (w @ [Fprintln command]))"

text \<open>The loop over the pairs that are in the source and in the destination.\<close>

fun planCommon ::
  "'u generateCommand \<Rightarrow> Sync \<Rightarrow> 'u SyncStrategy \<Rightarrow> 'u ObjectPair list
   \<Rightarrow> 'u effect list \<Rightarrow> 'u effect list"
where
  "planCommon gen s strategy [] w = w"
| "planCommon gen s strategy (commonObject # rest) w =
     (let sourceObject = src commonObject;
          destObject = dst commonObject;
          curSourceURL = URL sourceObject;
          curDestURL = URL destObject
      in case strategy sourceObject destObject of
           Some err \<Rightarrow>
             planCommon gen s strategy rest
               (w @ [PrintDebug (op s) err [curSourceURL, curDestURL]])
         | None \<Rightarrow>
             (case gen ''cp'' defaultFlags [curSourceURL, curDestURL] of
                Inl err \<Rightarrow>
                  planCommon gen s strategy rest
                    (w @ [PrintDebug (op s) err [curSourceURL, curDestURL]])
              | Inr command \<Rightarrow>
                  planCommon gen s strategy rest (w @ [Fprintln command])))"

text \<open>
  \<^verbatim>\<open>planRun\<close>: everything written to the writer and printed for debugging, in
  order.
\<close>

definition planRun ::
  "'u url_ops \<Rightarrow> 'u generateCommand \<Rightarrow> Sync \<Rightarrow> 'u list \<Rightarrow> 'u list \<Rightarrow> 'u ObjectPair list
   \<Rightarrow> 'u \<Rightarrow> 'u SyncStrategy \<Rightarrow> bool \<Rightarrow> 'u effect list"
where
  "planRun ops gen s onlySource onlyDest common dsturl strategy isBatch =
     (let w = planOnlySource ops gen s dsturl isBatch onlySource [];
          w = planCommon gen s strategy common w
      in if delete s \<and> length onlyDest > 0 then
           (case gen ''rm'' defaultFlags onlyDest of
              Inl err \<Rightarrow> w @ [PrintDebug (op s) err onlyDest]
            | Inr command \<Rightarrow> w @ [Fprintln command])
         else w)"

subsection \<open>Concrete URLs\<close>

text \<open>
  Modelled from the spec: the package \<^verbatim>\<open>storage/url\<close> is missing. For the concrete
  inputs of the examples below, a URL is an addressable path, tagged remote or local,
  with a bucket, a path and a relative path. A remote URL without a path is a bucket
  root, a remote URL whose path ends with the separator is a prefix, joining appends a
  name to the path, and a clone is an equal URL.
\<close>

record path_url =
  remote :: bool
  bucket :: string
  path :: string
  relativePath :: string

definition path_ops :: "path_url url_ops" where
  "path_ops =
     \<lparr>IsRemote = remote,
      IsPrefix = (\<lambda>u. remote u \<and> suffix ''/'' (path u)),
      IsBucket = (\<lambda>u. remote u \<and> path u = []),
      Base = (\<lambda>u. rev (takeWhile (\<lambda>c. c \<noteq> CHR ''/'') (rev (path u)))),
      Relative = relativePath,
      Join = (\<lambda>u name. u\<lparr>path := path u @ name\<rparr>),
      Clone = (\<lambda>u. u)\<rparr>"

definition local_file :: "string \<Rightarrow> string \<Rightarrow> path_url" where
  "local_file p rel = \<lparr>remote = False, bucket = [], path = p, relativePath = rel\<rparr>"

definition s3 :: "string \<Rightarrow> string \<Rightarrow> string \<Rightarrow> path_url" where
  "s3 b p rel = \<lparr>remote = True, bucket = b, path = p, relativePath = rel\<rparr>"

definition file_object :: "path_url \<Rightarrow> path_url Object" where
  "file_object u = \<lparr>URL = u, Type = File, StorageClass = ''STANDARD'', Err = None\<rparr>"

text \<open>The absolute form of a URL: a remote one with its scheme and bucket.\<close>

definition absolute :: "path_url \<Rightarrow> string" where
  "absolute u = (if remote u then ''s3://'' @ bucket u @ ''/'' @ path u else path u)"

text \<open>
  Concrete parameters of the skip filter: the error of a cancelled context, the storage
  class \<^verbatim>\<open>GLACIER\<close>, and an object printed as its absolute URL.
\<close>

definition sample_object_ops :: "path_url object_ops" where
  "sample_object_ops =
     \<lparr>IsCancelation = (\<lambda>err. err = Some ''context canceled''),
      IsGlacier = (\<lambda>class. class = ''GLACIER''),
      ObjectString = (\<lambda>obj. absolute (URL obj))\<rparr>"

text \<open>The command line \<^verbatim>\<open>sync --delete dir/ s3://bucket/prefix/\<close>.\<close>

definition sample_context :: cli_context where
  "sample_context =
     \<lparr>Args = [''dir/'', ''s3://bucket/prefix/''],
      Bool = (\<lambda>name. name = ''delete''),
      String = (\<lambda>name. []),
      CommandName = ''sync''\<rparr>"

definition sample_sync :: Sync where
  "sample_sync = NewSync (\<lambda>c. ''sync --delete dir/ s3://bucket/prefix/'') sample_context"

text \<open>The command line \<^verbatim>\<open>sync s3://bucket/prefix/* dir/\<close>.\<close>

definition download_context :: cli_context where
  "download_context =
     \<lparr>Args = [''s3://bucket/prefix/*'', ''dir/''],
      Bool = (\<lambda>name. False),
      String = (\<lambda>name. []),
      CommandName = ''sync''\<rparr>"

definition download_sync :: Sync where
  "download_sync = NewSync (\<lambda>c. ''sync s3://bucket/prefix/* dir/'') download_context"

text \<open>
  The objects of the example scenario: \<^verbatim>\<open>a.txt\<close>, \<^verbatim>\<open>b.txt\<close> and
  \<^verbatim>\<open>sub/c.txt\<close> under the local directory, \<^verbatim>\<open>a.txt\<close> and \<^verbatim>\<open>old.txt\<close> under the
  remote prefix; and an object in the storage class \<^verbatim>\<open>GLACIER\<close>.
\<close>

definition a_txt :: "path_url Object" where
  "a_txt = file_object (local_file ''dir/a.txt'' ''a.txt'')"

definition b_txt :: "path_url Object" where
  "b_txt = file_object (local_file ''dir/b.txt'' ''b.txt'')"

definition c_txt :: "path_url Object" where
  "c_txt = file_object (local_file ''dir/sub/c.txt'' ''sub/c.txt'')"

definition dest_a_txt :: "path_url Object" where
  "dest_a_txt = file_object (s3 ''bucket'' ''prefix/a.txt'' ''a.txt'')"

definition dest_old_txt :: "path_url Object" where
  "dest_old_txt = file_object (s3 ''bucket'' ''prefix/old.txt'' ''old.txt'')"

definition glacier_object :: "path_url Object" where
  "glacier_object =
     (file_object (s3 ''bucket'' ''prefix/cold.bin'' ''cold.bin''))\<lparr>StorageClass := ''GLACIER''\<rparr>"

lemmas sample_defs =
  a_txt_def b_txt_def c_txt_def dest_a_txt_def dest_old_txt_def file_object_def
  local_file_def s3_def path_ops_def

text \<open>
  A listing on a host whose separator is the backslash: the local file \<^verbatim>\<open>a0\<close> and
  the file \<^verbatim>\<open>b\<close> in the local directory \<^verbatim>\<open>a\<close>, with the remote objects
  \<^verbatim>\<open>a0\<close> and \<^verbatim>\<open>a/b\<close>.
\<close>

definition win_a0 :: "path_url Object" where
  "win_a0 = file_object (local_file ''a0'' ''a0'')"

definition win_a_b :: "path_url Object" where
  "win_a_b =
     file_object (local_file [CHR ''a'', Backslash, CHR ''b''] [CHR ''a'', Backslash, CHR ''b''])"

definition dest_a0 :: "path_url Object" where
  "dest_a0 = file_object (s3 ''bucket'' ''a0'' ''a0'')"

definition dest_a_b :: "path_url Object" where
  "dest_a_b = file_object (s3 ''bucket'' ''a/b'' ''a/b'')"

lemmas win_defs =
  win_a0_def win_a_b_def dest_a0_def dest_a_b_def file_object_def
  local_file_def s3_def path_ops_def Backslash_def

text \<open>
  A generator of command texts that renders the flag \<^verbatim>\<open>raw\<close> and the paths of the
  URLs, and the two answers of a strategy.
\<close>

definition sample_generateCommand :: "path_url generateCommand" where
  "sample_generateCommand name flags urls =
     Inr (name
          @ (case flags ''raw'' of Some (FlagBool True) \<Rightarrow> '' --raw=true'' | _ \<Rightarrow> [])
          @ concat (map (\<lambda>u. '' '' @ path u) urls))"

definition sync_required :: "path_url SyncStrategy" where
  "sync_required sourceObject destObject = None"


text \<open>
  A storage whose listings depend on the flag: with \<^verbatim>\<open>followSymlinks\<close> the listing
  has one more object, reached through a symbolic link.
\<close>

definition linked_txt :: "path_url Object" where
  "linked_txt = file_object (local_file ''dir/link/d.txt'' ''link/d.txt'')"

definition dest_linked_txt :: "path_url Object" where
  "dest_linked_txt = file_object (s3 ''bucket'' ''prefix/link/d.txt'' ''link/d.txt'')"

definition sample_client :: "path_url client" where
  "sample_client u follow =
     (if remote u then [dest_a_txt, dest_old_txt] @ (if follow then [dest_linked_txt] else [])
      else [a_txt, b_txt, c_txt] @ (if follow then [linked_txt] else []))"

definition sample_storage :: "path_url storage_ops" where
  "sample_storage =
     \<lparr>NewClient = (\<lambda>u. Inr sample_client),
      url_New = (\<lambda>text. if text = [] then Inl ''url cannot be empty''
                        else if prefix ''s3://bucket/'' text
                        then Inr (s3 ''bucket'' (drop (length ''s3://bucket/'') text) [])
                        else Inr (local_file text []))\<rparr>"

section \<open>Properties\<close>

subsection \<open>The destination of a source URL\<close>

text \<open>
  C1, as stated, fails: in batch mode the destination is not the join with the relative
  path for every shape of destination. For a remote destination that is neither a
  prefix nor a bucket, the code returns the clone of the destination whether the mode is
  batch or not. Here the source \<^verbatim>\<open>dir/sub/c.txt\<close> with relative path
  \<^verbatim>\<open>sub/c.txt\<close> goes to the exact key \<^verbatim>\<open>s3://bucket/key\<close> in batch mode.
\<close>

theorem generateDestinationURL_batch_exact_key:
  "generateDestinationURL path_ops (local_file ''dir/sub/c.txt'' ''sub/c.txt'')
       (s3 ''bucket'' ''key'' []) True
     \<noteq> Join path_ops (s3 ''bucket'' ''key'' [])
         (Relative path_ops (local_file ''dir/sub/c.txt'' ''sub/c.txt''))"
  by (simp add: generateDestinationURL_def path_ops_def local_file_def s3_def suffix_to_prefix)

text \<open>
  C1, amended: in batch mode the result is the destination joined with the relative
  path of the source when the destination is local, a remote prefix or a bucket root;
  out of batch mode it is the destination joined with the base name of the source for a
  remote prefix or bucket root and for a local destination; for a remote destination
  that is an exact key the result is the clone of the destination in both modes.
\<close>

theorem generateDestinationURL_table:
  "(isBatch \<and> (\<not> IsRemote ops dsturl \<or> IsPrefix ops dsturl \<or> IsBucket ops dsturl) \<longrightarrow>
      generateDestinationURL ops srcurl dsturl isBatch
        = Join ops dsturl (Relative ops srcurl)) \<and>
   (\<not> isBatch \<and> IsRemote ops dsturl \<and> (IsPrefix ops dsturl \<or> IsBucket ops dsturl) \<longrightarrow>
      generateDestinationURL ops srcurl dsturl isBatch
        = Join ops dsturl (Base ops srcurl)) \<and>
   (IsRemote ops dsturl \<and> \<not> IsPrefix ops dsturl \<and> \<not> IsBucket ops dsturl \<longrightarrow>
      generateDestinationURL ops srcurl dsturl isBatch = Clone ops dsturl) \<and>
   (\<not> isBatch \<and> \<not> IsRemote ops dsturl \<longrightarrow>
      generateDestinationURL ops srcurl dsturl isBatch
        = Join ops dsturl (Base ops srcurl))"
  by (simp add: generateDestinationURL_def Let_def)

text \<open>
  The rows of the amended table at concrete URLs: batch mode to a prefix and to a local
  directory, a single object to a bucket root, to an exact key and to a local directory,
  and batch mode to an exact key.
\<close>

theorem generateDestinationURL_table_witness:
  "generateDestinationURL path_ops (local_file ''dir/sub/c.txt'' ''sub/c.txt'')
       (s3 ''bucket'' ''prefix/'' []) True = s3 ''bucket'' ''prefix/sub/c.txt'' [] \<and>
   generateDestinationURL path_ops (local_file ''dir/sub/c.txt'' ''sub/c.txt'')
       (local_file ''out/'' []) True = local_file ''out/sub/c.txt'' [] \<and>
   generateDestinationURL path_ops (local_file ''dir/sub/c.txt'' ''sub/c.txt'')
       (s3 ''bucket'' [] []) False = s3 ''bucket'' ''c.txt'' [] \<and>
   generateDestinationURL path_ops (local_file ''dir/sub/c.txt'' ''sub/c.txt'')
       (s3 ''bucket'' ''key'' []) False = s3 ''bucket'' ''key'' [] \<and>
   generateDestinationURL path_ops (local_file ''dir/sub/c.txt'' ''sub/c.txt'')
       (s3 ''bucket'' ''key'' []) True = s3 ''bucket'' ''key'' [] \<and>
   generateDestinationURL path_ops (s3 ''bucket'' ''sub/c.txt'' ''sub/c.txt'')
       (local_file ''out/'' []) False = local_file ''out/c.txt'' []"
  using
    generateDestinationURL_table [of True path_ops "s3 ''bucket'' ''prefix/'' []"
      "local_file ''dir/sub/c.txt'' ''sub/c.txt''"]
    generateDestinationURL_table [of True path_ops "local_file ''out/'' []"
      "local_file ''dir/sub/c.txt'' ''sub/c.txt''"]
    generateDestinationURL_table [of False path_ops "s3 ''bucket'' [] []"
      "local_file ''dir/sub/c.txt'' ''sub/c.txt''"]
    generateDestinationURL_table [of False path_ops "s3 ''bucket'' ''key'' []"
      "local_file ''dir/sub/c.txt'' ''sub/c.txt''"]
    generateDestinationURL_table [of True path_ops "s3 ''bucket'' ''key'' []"
      "local_file ''dir/sub/c.txt'' ''sub/c.txt''"]
    generateDestinationURL_table [of False path_ops "local_file ''out/'' []"
      "s3 ''bucket'' ''sub/c.txt'' ''sub/c.txt''"]
  by (simp add: path_ops_def local_file_def s3_def suffix_to_prefix)

subsection \<open>The diff of two listings\<close>

lemma distinct_relativeKey_Relative:
  assumes "distinct (map (relativeKey ops sep) objects)"
  shows "inj_on (\<lambda>obj. Relative ops (URL obj)) (set objects)"
proof (rule inj_onI)
  fix x y
  assume x: "x \<in> set objects" and y: "y \<in> set objects"
    and eq: "Relative ops (URL x) = Relative ops (URL y)"
  from eq have "relativeKey ops sep x = relativeKey ops sep y"
    by (simp add: relativeKey_def urlKey_def)
  moreover from assms have "inj_on (relativeKey ops sep) (set objects)"
    by (simp add: distinct_map)
  ultimately show "x = y" using x y by (auto dest: inj_onD)
qed

text \<open>
  Sorting forgets the order of a listing whose relative paths are distinct: a stable
  sort has only one result on distinct keys.
\<close>

lemma sortObjects_permutation:
  assumes "mset objects' = mset objects"
    and "inj_on (\<lambda>obj. Relative ops (URL obj)) (set objects)"
  shows "sortObjects ops objects' = sortObjects ops objects"
proof -
  have "sort_key (\<lambda>obj. Relative ops (URL obj)) objects
      = sort_key (\<lambda>obj. Relative ops (URL obj)) objects'"
    using assms by (intro sort_key_eq_sort_key) simp_all
  then show ?thesis by (simp add: sortObjects_def)
qed

text \<open>
  C3: when the keys of each side are distinct, \<^const>\<open>compareObjects\<close> returns the same
  three lists for every permutation of the source listing and every permutation of the
  destination listing. This holds for every path separator of the host.
\<close>

theorem compareObjects_permutation:
  assumes "mset sourceObjects' = mset sourceObjects"
    and "mset destObjects' = mset destObjects"
    and "distinct (map (relativeKey ops sep) sourceObjects)"
    and "distinct (map (relativeKey ops sep) destObjects)"
  shows "compareObjects ops sep sourceObjects' destObjects'
       = compareObjects ops sep sourceObjects destObjects"
proof -
  have "sortObjects ops sourceObjects' = sortObjects ops sourceObjects"
    using assms(1,3) by (intro sortObjects_permutation distinct_relativeKey_Relative)
  moreover have "sortObjects ops destObjects' = sortObjects ops destObjects"
    using assms(2,4) by (intro sortObjects_permutation distinct_relativeKey_Relative)
  ultimately show ?thesis by (simp add: compareObjects_def)
qed

text \<open>
  The example scenario, listed in two orders: the same partitions, and they are the
  expected ones.
\<close>

theorem compareObjects_permutation_witness:
  "compareObjects path_ops (CHR ''/'') [c_txt, a_txt, b_txt] [dest_old_txt, dest_a_txt]
     = compareObjects path_ops (CHR ''/'') [a_txt, b_txt, c_txt] [dest_a_txt, dest_old_txt] \<and>
   compareObjects path_ops (CHR ''/'') [a_txt, b_txt, c_txt] [dest_a_txt, dest_old_txt]
     = ([URL b_txt, URL c_txt], [URL dest_old_txt], [\<lparr>src = a_txt, dst = dest_a_txt\<rparr>])"
proof
  show "compareObjects path_ops (CHR ''/'') [c_txt, a_txt, b_txt] [dest_old_txt, dest_a_txt]
     = compareObjects path_ops (CHR ''/'') [a_txt, b_txt, c_txt] [dest_a_txt, dest_old_txt]"
    by (rule compareObjects_permutation)
       (simp_all add: relativeKey_def urlKey_def ToSlash_def sample_defs)
  show "compareObjects path_ops (CHR ''/'') [a_txt, b_txt, c_txt] [dest_a_txt, dest_old_txt]
     = ([URL b_txt, URL c_txt], [URL dest_old_txt], [\<lparr>src = a_txt, dst = dest_a_txt\<rparr>])"
    by (simp add: compareObjects_def sortObjects_def compareLoop.simps compareStep_def
          ToSlash_def Let_def sample_defs)
qed

subsection \<open>The loop as a merge of two lists\<close>

text \<open>
  The merge of two lists by their keys, by recursion on the lists: the elements that
  are only in the first list, those only in the second, and the pairs with equal keys.
\<close>

fun mergeJoin ::
  "('a \<Rightarrow> string) \<Rightarrow> 'a list \<Rightarrow> 'a list \<Rightarrow> 'a list \<times> 'a list \<times> ('a \<times> 'a) list"
where
  "mergeJoin key [] ds = ([], ds, [])"
| "mergeJoin key (s # ss) [] = (s # ss, [], [])"
| "mergeJoin key (s # ss) (d # ds) =
     (if key s > key d then
        (case mergeJoin key (s # ss) ds of (a, b, c) \<Rightarrow> (a, d # b, c))
      else if key s = key d then
        (case mergeJoin key ss ds of (a, b, c) \<Rightarrow> (a, b, (s, d) # c))
      else
        (case mergeJoin key ss (d # ds) of (a, b, c) \<Rightarrow> (s # a, b, c)))"

text \<open>The result of a merge, appended to the lists of a state of the loop.\<close>

definition extend ::
  "'u cmp_state \<Rightarrow> 'u Object list \<times> 'u Object list \<times> ('u Object \<times> 'u Object) list
   \<Rightarrow> 'u list \<times> 'u list \<times> 'u ObjectPair list"
where
  "extend st r =
     (case r of (a, b, c) \<Rightarrow>
        (srcOnly st @ map URL a, dstOnly st @ map URL b,
         commonObj st @ map (\<lambda>(s, d). \<lparr>src = s, dst = d\<rparr>) c))"

text \<open>The four cases of one pass of the loop.\<close>

lemma compareStep_end:
  assumes "int (length S) \<le> iSrc st" "int (length D) \<le> iDst st"
  shows "compareStep ops sep S D st = None"
  using assms by (simp add: compareStep_def)

lemma compareStep_dst:
  assumes "int (length S) \<le> iSrc st" "iDst st < int (length D)"
  shows "compareStep ops sep S D st
       = Some (st\<lparr>iSrc := iSrc st + 1, iDst := iDst st + 1,
                  dstOnly := dstOnly st @ [URL (D ! nat (iDst st))]\<rparr>)"
  using assms by (simp add: compareStep_def)

lemma compareStep_src:
  assumes "iSrc st < int (length S)" "int (length D) \<le> iDst st"
  shows "compareStep ops sep S D st
       = Some (st\<lparr>iSrc := iSrc st + 1, iDst := iDst st + 1,
                  srcOnly := srcOnly st @ [URL (S ! nat (iSrc st))]\<rparr>)"
  using assms by (simp add: compareStep_def)

lemma compareStep_both:
  assumes "iSrc st < int (length S)" "iDst st < int (length D)"
  shows "compareStep ops sep S D st
       = Some (if relativeKey ops sep (S ! nat (iSrc st)) > relativeKey ops sep (D ! nat (iDst st))
               then st\<lparr>iDst := iDst st + 1, dstOnly := dstOnly st @ [URL (D ! nat (iDst st))]\<rparr>
               else if relativeKey ops sep (S ! nat (iSrc st)) = relativeKey ops sep (D ! nat (iDst st))
               then st\<lparr>iSrc := iSrc st + 1, iDst := iDst st + 1,
                       commonObj := commonObj st
                         @ [\<lparr>src = S ! nat (iSrc st), dst = D ! nat (iDst st)\<rparr>]\<rparr>
               else st\<lparr>iSrc := iSrc st + 1, srcOnly := srcOnly st @ [URL (S ! nat (iSrc st))]\<rparr>)"
  using assms by (simp add: compareStep_def relativeKey_def urlKey_def)

lemma drop_nat_Cons:
  assumes "0 \<le> i" "i < int (length xs)"
  shows "drop (nat i) xs = xs ! nat i # drop (nat (i + 1)) xs"
proof -
  have "nat i < length xs" using assms by linarith
  moreover have "nat (i + 1) = Suc (nat i)" using assms by simp
  ultimately show ?thesis by (simp add: Cons_nth_drop_Suc)
qed

lemma mergeJoin_Nil_right: "mergeJoin key ss [] = (ss, [], [])"
  by (cases ss) simp_all

lemma compareLoop_step:
  assumes "compareStep ops sep S D st = Some st'"
  shows "compareLoop ops sep S D st = compareLoop ops sep S D st'"
  by (subst compareLoop.simps) (simp add: assms)

lemma compareLoop_stop:
  assumes "compareStep ops sep S D st = None"
  shows "compareLoop ops sep S D st = (srcOnly st, dstOnly st, commonObj st)"
  by (subst compareLoop.simps) (simp add: assms)

lemma extend_src:
  "extend (st\<lparr>iSrc := i, iDst := j, srcOnly := srcOnly st @ [URL s]\<rparr>) r
     = extend st (case r of (a, b, c) \<Rightarrow> (s # a, b, c))"
  by (cases r) (simp add: extend_def)

lemma extend_dst:
  "extend (st\<lparr>iSrc := i, iDst := j, dstOnly := dstOnly st @ [URL d]\<rparr>) r
     = extend st (case r of (a, b, c) \<Rightarrow> (a, d # b, c))"
  by (cases r) (simp add: extend_def)

lemma extend_src_only:
  "extend (st\<lparr>iSrc := i, srcOnly := srcOnly st @ [URL s]\<rparr>) r
     = extend st (case r of (a, b, c) \<Rightarrow> (s # a, b, c))"
  by (cases r) (simp add: extend_def)

lemma extend_dst_only:
  "extend (st\<lparr>iDst := j, dstOnly := dstOnly st @ [URL d]\<rparr>) r
     = extend st (case r of (a, b, c) \<Rightarrow> (a, d # b, c))"
  by (cases r) (simp add: extend_def)

lemma extend_common:
  "extend (st\<lparr>iSrc := i, iDst := j, commonObj := commonObj st @ [\<lparr>src = s, dst = d\<rparr>]\<rparr>) r
     = extend st (case r of (a, b, c) \<Rightarrow> (a, b, (s, d) # c))"
  by (cases r) (simp add: extend_def)

text \<open>
  From a state whose indices are not negative, the loop computes the merge of what is
  left of the two lists.
\<close>

lemma compareLoop_mergeJoin:
  assumes "0 \<le> iSrc st" "0 \<le> iDst st"
  shows "compareLoop ops sep S D st
       = extend st (mergeJoin (relativeKey ops sep)
           (drop (nat (iSrc st)) S) (drop (nat (iDst st)) D))"
  using assms
proof (induction ops sep S D st rule: compareLoop.induct)
  case (1 ops sep S D st)
  note nonneg = "1.prems"
  let ?key = "relativeKey ops sep"
  let ?i = "iSrc st" and ?j = "iDst st"
  let ?s = "S ! nat ?i" and ?d = "D ! nat ?j"
  have IH: "compareLoop ops sep S D st'
      = extend st' (mergeJoin ?key (drop (nat (iSrc st')) S) (drop (nat (iDst st')) D))"
    if "compareStep ops sep S D st = Some st'" "0 \<le> iSrc st'" "0 \<le> iDst st'" for st'
    using that by (rule "1.IH")
  consider
      (stop) "int (length S) \<le> ?i" "int (length D) \<le> ?j"
    | (dst) "int (length S) \<le> ?i" "?j < int (length D)"
    | (src) "?i < int (length S)" "int (length D) \<le> ?j"
    | (both) "?i < int (length S)" "?j < int (length D)"
    by linarith
  then show ?case
  proof cases
    case stop
    then have "compareStep ops sep S D st = None"
      by (rule compareStep_end)
    then have "compareLoop ops sep S D st = (srcOnly st, dstOnly st, commonObj st)"
      by (rule compareLoop_stop)
    moreover have "drop (nat ?i) S = []" "drop (nat ?j) D = []"
      using stop by simp_all
    ultimately show ?thesis by (simp add: extend_def)
  next
    case dst
    let ?st' = "st\<lparr>iSrc := ?i + 1, iDst := ?j + 1, dstOnly := dstOnly st @ [URL ?d]\<rparr>"
    have step: "compareStep ops sep S D st = Some ?st'"
      using dst by (rule compareStep_dst)
    have dropS: "drop (nat ?i) S = []" "drop (nat (?i + 1)) S = []"
      using dst by simp_all
    have dropD: "drop (nat ?j) D = ?d # drop (nat (?j + 1)) D"
      using nonneg dst by (intro drop_nat_Cons)
    have "compareLoop ops sep S D st = compareLoop ops sep S D ?st'"
      using step by (rule compareLoop_step)
    also have "\<dots> = extend ?st' (mergeJoin ?key [] (drop (nat (?j + 1)) D))"
      using IH [OF step] nonneg dropS by simp
    also have "\<dots> = extend st (mergeJoin ?key [] (?d # drop (nat (?j + 1)) D))"
      by (simp add: extend_dst)
    finally show ?thesis by (simp only: dropS dropD)
  next
    case src
    let ?st' = "st\<lparr>iSrc := ?i + 1, iDst := ?j + 1, srcOnly := srcOnly st @ [URL ?s]\<rparr>"
    have step: "compareStep ops sep S D st = Some ?st'"
      using src by (rule compareStep_src)
    have dropD: "drop (nat ?j) D = []" "drop (nat (?j + 1)) D = []"
      using src by simp_all
    have dropS: "drop (nat ?i) S = ?s # drop (nat (?i + 1)) S"
      using nonneg src by (intro drop_nat_Cons)
    have "compareLoop ops sep S D st = compareLoop ops sep S D ?st'"
      using step by (rule compareLoop_step)
    also have "\<dots> = extend ?st' (mergeJoin ?key (drop (nat (?i + 1)) S) [])"
      using IH [OF step] nonneg dropD by simp
    also have "\<dots> = extend st (mergeJoin ?key (?s # drop (nat (?i + 1)) S) [])"
      by (simp add: extend_src mergeJoin_Nil_right)
    finally show ?thesis by (simp only: dropS dropD)
  next
    case both
    have dropS: "drop (nat ?i) S = ?s # drop (nat (?i + 1)) S"
      using nonneg both by (intro drop_nat_Cons)
    have dropD: "drop (nat ?j) D = ?d # drop (nat (?j + 1)) D"
      using nonneg both by (intro drop_nat_Cons)
    note step = compareStep_both [OF both, of ops sep]
    consider (gt) "?key ?s > ?key ?d" | (eq) "?key ?s = ?key ?d" | (lt) "?key ?s < ?key ?d"
      by force
    then show ?thesis
    proof cases
      case gt
      let ?st' = "st\<lparr>iSrc := ?i, iDst := ?j + 1, dstOnly := dstOnly st @ [URL ?d]\<rparr>"
      have step': "compareStep ops sep S D st = Some ?st'"
        using step gt by simp
      have "compareLoop ops sep S D st = compareLoop ops sep S D ?st'"
        using step' by (rule compareLoop_step)
      also have "\<dots> = extend ?st' (mergeJoin ?key (drop (nat ?i) S) (drop (nat (?j + 1)) D))"
        using IH [OF step'] nonneg by simp
      also have "\<dots> = extend st (mergeJoin ?key (?s # drop (nat (?i + 1)) S)
                             (?d # drop (nat (?j + 1)) D))"
        using gt by (subst dropS) (simp add: extend_dst_only)
      finally show ?thesis by (simp only: dropS dropD)
    next
      case eq
      let ?st' = "st\<lparr>iSrc := ?i + 1, iDst := ?j + 1,
                     commonObj := commonObj st @ [\<lparr>src = ?s, dst = ?d\<rparr>]\<rparr>"
      have step': "compareStep ops sep S D st = Some ?st'"
        using step eq by simp
      have "compareLoop ops sep S D st = compareLoop ops sep S D ?st'"
        using step' by (rule compareLoop_step)
      also have "\<dots> = extend ?st' (mergeJoin ?key (drop (nat (?i + 1)) S)
                             (drop (nat (?j + 1)) D))"
        using IH [OF step'] nonneg by simp
      also have "\<dots> = extend st (mergeJoin ?key (?s # drop (nat (?i + 1)) S)
                             (?d # drop (nat (?j + 1)) D))"
        using eq by (simp add: extend_common)
      finally show ?thesis by (simp only: dropS dropD)
    next
      case lt
      let ?st' = "st\<lparr>iSrc := ?i + 1, iDst := ?j, srcOnly := srcOnly st @ [URL ?s]\<rparr>"
      have step': "compareStep ops sep S D st = Some ?st'"
        using step lt by simp
      have "compareLoop ops sep S D st = compareLoop ops sep S D ?st'"
        using step' by (rule compareLoop_step)
      also have "\<dots> = extend ?st' (mergeJoin ?key (drop (nat (?i + 1)) S) (drop (nat ?j) D))"
        using IH [OF step'] nonneg by simp
      also have "\<dots> = extend st (mergeJoin ?key (?s # drop (nat (?i + 1)) S)
                             (?d # drop (nat (?j + 1)) D))"
      proof -
        from lt have "\<not> ?key ?d < ?key ?s" "?key ?s \<noteq> ?key ?d"
          by auto
        then show ?thesis
          by (subst dropD) (simp add: extend_src_only)
      qed
      finally show ?thesis by (simp only: dropS dropD)
    qed
  qed
qed

text \<open>
  Every element of either list is in exactly one part of the merge; the two halves of
  a pair have the same key; and between strictly sorted lists, an element that is only
  in one list has a key that the other list does not have.
\<close>

lemma mergeJoin_mset:
  assumes "mergeJoin key S D = (a, b, c)"
  shows "mset a + mset (map fst c) = mset S \<and> mset b + mset (map snd c) = mset D"
  using assms
proof (induction key S D arbitrary: a b c rule: mergeJoin.induct)
  case (1 key ds)
  then show ?case by simp
next
  case (2 key s ss)
  then show ?case by simp
next
  case (3 key s ss d ds)
  show ?case
  proof (cases "key d < key s")
    case True
    obtain a' b' c' where rec: "mergeJoin key (s # ss) ds = (a', b', c')"
      by (cases "mergeJoin key (s # ss) ds")
    with True "3.prems" have "a = a'" "b = d # b'" "c = c'" by simp_all
    with "3.IH"(1) [OF True rec] show ?thesis by simp
  next
    case False
    show ?thesis
    proof (cases "key s = key d")
      case True
      obtain a' b' c' where rec: "mergeJoin key ss ds = (a', b', c')"
        by (cases "mergeJoin key ss ds")
      with True "3.prems" have "a = a'" "b = b'" "c = (s, d) # c'" by simp_all
      with "3.IH"(2) [OF False True rec] show ?thesis by simp
    next
      case neq: False
      obtain a' b' c' where rec: "mergeJoin key ss (d # ds) = (a', b', c')"
        by (cases "mergeJoin key ss (d # ds)")
      with False neq "3.prems" have "a = s # a'" "b = b'" "c = c'" by simp_all
      with "3.IH"(3) [OF False neq rec] show ?thesis by simp
    qed
  qed
qed

lemma mergeJoin_pairs:
  assumes "mergeJoin key S D = (a, b, c)" "(s, d) \<in> set c"
  shows "key s = key d"
  using assms
proof (induction key S D arbitrary: a b c rule: mergeJoin.induct)
  case (3 key s' ss d' ds)
  show ?case
  proof (cases "key d' < key s'")
    case True
    obtain a' b' c' where rec: "mergeJoin key (s' # ss) ds = (a', b', c')"
      by (cases "mergeJoin key (s' # ss) ds")
    with True "3.prems" have "c = c'" by simp
    with "3.IH"(1) [OF True rec] "3.prems"(2) show ?thesis by simp
  next
    case False
    show ?thesis
    proof (cases "key s' = key d'")
      case True
      obtain a' b' c' where rec: "mergeJoin key ss ds = (a', b', c')"
        by (cases "mergeJoin key ss ds")
      with True "3.prems" have "c = (s', d') # c'" by simp
      with "3.IH"(2) [OF False True rec] "3.prems"(2) True show ?thesis by auto
    next
      case neq: False
      obtain a' b' c' where rec: "mergeJoin key ss (d' # ds) = (a', b', c')"
        by (cases "mergeJoin key ss (d' # ds)")
      with False neq "3.prems" have "c = c'" by simp
      with "3.IH"(3) [OF False neq rec] "3.prems"(2) show ?thesis by simp
    qed
  qed
qed simp_all

lemma mergeJoin_only:
  assumes "mergeJoin key S D = (a, b, c)"
    and "sorted_wrt (<) (map key S)" "sorted_wrt (<) (map key D)"
  shows "(\<forall>x \<in> set a. \<forall>y \<in> set D. key x \<noteq> key y)
    \<and> (\<forall>y \<in> set b. \<forall>x \<in> set S. key y \<noteq> key x)"
  using assms
proof (induction key S D arbitrary: a b c rule: mergeJoin.induct)
  case (1 key ds)
  then show ?case by simp
next
  case (2 key s ss)
  then show ?case by simp
next
  case (3 key s ss d ds)
  from "3.prems" have sorted_ss: "sorted_wrt (<) (map key ss)"
    and sorted_ds: "sorted_wrt (<) (map key ds)"
    and above_s: "\<forall>x \<in> set ss. key s < key x"
    and above_d: "\<forall>y \<in> set ds. key d < key y"
    by simp_all
  show ?case
  proof (cases "key d < key s")
    case True
    obtain a' b' c' where rec: "mergeJoin key (s # ss) ds = (a', b', c')"
      by (cases "mergeJoin key (s # ss) ds")
    with True "3.prems" have res: "a = a'" "b = d # b'" "c = c'" by simp_all
    have IH: "(\<forall>x \<in> set a'. \<forall>y \<in> set ds. key x \<noteq> key y)
        \<and> (\<forall>y \<in> set b'. \<forall>x \<in> set (s # ss). key y \<noteq> key x)"
      using "3.IH"(1) [OF True rec] "3.prems"(2) sorted_ds by simp
    have "set a' \<subseteq> set (s # ss)"
      using mergeJoin_mset [OF rec] by (metis mset_subset_eq_add_left set_mset_mono set_mset_mset)
    moreover have above: "\<forall>x \<in> set (s # ss). key d < key x"
      using True above_s by (auto intro: less_trans)
    ultimately have "\<forall>x \<in> set a'. key d < key x"
      by blast
    with above show ?thesis using IH res by auto
  next
    case False
    show ?thesis
    proof (cases "key s = key d")
      case True
      obtain a' b' c' where rec: "mergeJoin key ss ds = (a', b', c')"
        by (cases "mergeJoin key ss ds")
      with True "3.prems" have res: "a = a'" "b = b'" "c = (s, d) # c'" by simp_all
      have IH: "(\<forall>x \<in> set a'. \<forall>y \<in> set ds. key x \<noteq> key y)
          \<and> (\<forall>y \<in> set b'. \<forall>x \<in> set ss. key y \<noteq> key x)"
        using "3.IH"(2) [OF False True rec] sorted_ss sorted_ds by simp
      have "set a' \<subseteq> set ss"
        using mergeJoin_mset [OF rec] by (metis mset_subset_eq_add_left set_mset_mono set_mset_mset)
      then have "\<forall>x \<in> set a'. key d < key x"
        using True above_s by auto
      moreover have "set b' \<subseteq> set ds"
        using mergeJoin_mset [OF rec] by (metis mset_subset_eq_add_left set_mset_mono set_mset_mset)
      then have "\<forall>y \<in> set b'. key s < key y"
        using True above_d by auto
      ultimately show ?thesis using IH res by auto
    next
      case neq: False
      with False have lt: "key s < key d" by auto
      obtain a' b' c' where rec: "mergeJoin key ss (d # ds) = (a', b', c')"
        by (cases "mergeJoin key ss (d # ds)")
      with False neq "3.prems" have res: "a = s # a'" "b = b'" "c = c'" by simp_all
      have IH: "(\<forall>x \<in> set a'. \<forall>y \<in> set (d # ds). key x \<noteq> key y)
          \<and> (\<forall>y \<in> set b'. \<forall>x \<in> set ss. key y \<noteq> key x)"
        using "3.IH"(3) [OF False neq rec] sorted_ss "3.prems"(3) by simp
      have "set b' \<subseteq> set (d # ds)"
        using mergeJoin_mset [OF rec] by (metis mset_subset_eq_add_left set_mset_mono set_mset_mset)
      moreover have above: "\<forall>y \<in> set (d # ds). key s < key y"
        using lt above_d by (auto intro: less_trans)
      ultimately have "\<forall>y \<in> set b'. key s < key y"
        by blast
      with above show ?thesis using IH res by auto
    qed
  qed
qed

lemma urlKey_URL: "urlKey ops sep (URL obj) = relativeKey ops sep obj"
  by (simp add: relativeKey_def)

lemma compareObjects_mergeJoin:
  "compareObjects ops sep S D
     = (case mergeJoin (relativeKey ops sep) (sortObjects ops S) (sortObjects ops D) of
          (a, b, c) \<Rightarrow> (map URL a, map URL b, map (\<lambda>(s, d). \<lparr>src = s, dst = d\<rparr>) c))"
  by (simp add: compareObjects_def Let_def compareLoop_mergeJoin extend_def)

lemma mset_sortObjects: "mset (sortObjects ops objects) = mset objects"
  by (simp add: sortObjects_def)

text \<open>
  The source-only URLs with the source halves of the common pairs are the URLs of the
  source listing, and likewise for the destination, on every host.
\<close>

lemma compareObjects_complete:
  assumes "compareObjects ops sep S D = (onlySource, onlyDest, common)"
  shows "mset onlySource + mset (map (\<lambda>pair. URL (src pair)) common) = mset (map URL S) \<and>
         mset onlyDest + mset (map (\<lambda>pair. URL (dst pair)) common) = mset (map URL D)"
proof -
  obtain a b c
    where merge: "mergeJoin (relativeKey ops sep) (sortObjects ops S) (sortObjects ops D) = (a, b, c)"
    by (cases "mergeJoin (relativeKey ops sep) (sortObjects ops S) (sortObjects ops D)")
  with assms have res: "onlySource = map URL a" "onlyDest = map URL b"
    "common = map (\<lambda>(s, d). \<lparr>src = s, dst = d\<rparr>) c"
    by (simp_all add: compareObjects_mergeJoin)
  have c_src: "map (\<lambda>pair. URL (src pair)) common = map URL (map fst c)"
    and c_dst: "map (\<lambda>pair. URL (dst pair)) common = map URL (map snd c)"
    by (simp_all add: res case_prod_unfold)
  from mergeJoin_mset [OF merge]
  have "mset (map URL a) + mset (map URL (map fst c)) = mset (map URL S)"
    and "mset (map URL b) + mset (map URL (map snd c)) = mset (map URL D)"
    by (metis image_mset_union mset_map mset_sortObjects)+
  then show ?thesis by (simp only: res(1,2) c_src c_dst)
qed

lemma strictly_sorted_sortObjects:
  assumes "distinct (map (relativeKey ops sep) objects)"
    and "\<forall>obj \<in> set objects. relativeKey ops sep obj = Relative ops (URL obj)"
  shows "sorted_wrt (<) (map (relativeKey ops sep) (sortObjects ops objects))"
proof -
  have set_eq: "set (sortObjects ops objects) = set objects"
    by (simp add: sortObjects_def)
  have "map (relativeKey ops sep) (sortObjects ops objects)
      = map (\<lambda>obj. Relative ops (URL obj)) (sortObjects ops objects)"
    using assms(2) set_eq by (intro map_cong) auto
  moreover have "sorted (map (\<lambda>obj. Relative ops (URL obj)) (sortObjects ops objects))"
    by (simp add: sortObjects_def)
  ultimately have "sorted (map (relativeKey ops sep) (sortObjects ops objects))"
    by (simp only:)
  moreover have "mset (map (relativeKey ops sep) (sortObjects ops objects))
      = mset (map (relativeKey ops sep) objects)"
    by (simp add: mset_sortObjects)
  then have "distinct (map (relativeKey ops sep) (sortObjects ops objects))"
    using assms(1) by (metis mset_eq_imp_distinct_iff)
  ultimately show ?thesis by (simp add: strict_sorted_iff)
qed

text \<open>
  When each side has one object per key and \<^const>\<open>ToSlash\<close> leaves every relative
  path as it is, the sorted lists are sorted by the key of the loop, and the three
  partitions are disjoint by key.
\<close>

lemma compareObjects_disjoint:
  assumes result: "compareObjects ops sep S D = (onlySource, onlyDest, common)"
    and distinct: "distinct (map (relativeKey ops sep) S)" "distinct (map (relativeKey ops sep) D)"
    and plain: "\<forall>obj \<in> set S \<union> set D. relativeKey ops sep obj = Relative ops (URL obj)"
  shows "(\<forall>u \<in> set onlySource. \<forall>v \<in> set onlyDest. urlKey ops sep u \<noteq> urlKey ops sep v) \<and>
         (\<forall>u \<in> set onlySource. \<forall>pair \<in> set common.
            urlKey ops sep u \<noteq> relativeKey ops sep (src pair)) \<and>
         (\<forall>v \<in> set onlyDest. \<forall>pair \<in> set common.
            urlKey ops sep v \<noteq> relativeKey ops sep (dst pair)) \<and>
         (\<forall>pair \<in> set common.
            relativeKey ops sep (src pair) = relativeKey ops sep (dst pair))"
proof -
  let ?key = "relativeKey ops sep"
  let ?S = "sortObjects ops S" and ?D = "sortObjects ops D"
  obtain a b c where merge: "mergeJoin ?key ?S ?D = (a, b, c)"
    by (cases "mergeJoin ?key ?S ?D")
  with result have res: "onlySource = map URL a" "onlyDest = map URL b"
    "common = map (\<lambda>(s, d). \<lparr>src = s, dst = d\<rparr>) c"
    by (simp_all add: compareObjects_mergeJoin)
  have sorted: "sorted_wrt (<) (map ?key ?S)" "sorted_wrt (<) (map ?key ?D)"
    using distinct plain by (auto intro!: strictly_sorted_sortObjects)
  note parts = mergeJoin_mset [OF merge]
  have b_sub: "set b \<subseteq> set ?D"
    using parts by (metis mset_subset_eq_add_left set_mset_mono set_mset_mset)
  have only: "\<forall>x \<in> set a. \<forall>y \<in> set ?D. ?key x \<noteq> ?key y"
    using mergeJoin_only [OF merge sorted] by simp
  have dist_S: "distinct (map ?key (a @ map fst c))"
  proof -
    have "mset (map ?key (a @ map fst c)) = mset (map ?key ?S)"
      using parts by (metis mset_append mset_map)
    moreover have "distinct (map ?key ?S)"
      using sorted(1) by (simp add: strict_sorted_iff)
    ultimately show ?thesis by (metis mset_eq_imp_distinct_iff)
  qed
  have dist_D: "distinct (map ?key (b @ map snd c))"
  proof -
    have "mset (map ?key (b @ map snd c)) = mset (map ?key ?D)"
      using parts by (metis mset_append mset_map)
    moreover have "distinct (map ?key ?D)"
      using sorted(2) by (simp add: strict_sorted_iff)
    ultimately show ?thesis by (metis mset_eq_imp_distinct_iff)
  qed
  have "\<forall>x \<in> set a. \<forall>y \<in> set b. ?key x \<noteq> ?key y"
    using only b_sub by blast
  moreover have "?key x \<noteq> ?key s" if "x \<in> set a" "(s, d) \<in> set c" for x s d
  proof -
    from that have "?key x \<in> ?key ` set a" "?key s \<in> ?key ` set (map fst c)"
      by force+
    moreover from dist_S have "?key ` set a \<inter> ?key ` set (map fst c) = {}"
      by (simp add: image_image)
    ultimately show ?thesis by (metis IntI empty_iff)
  qed
  moreover have "?key y \<noteq> ?key d" if "y \<in> set b" "(s, d) \<in> set c" for y s d
  proof -
    from that have "?key y \<in> ?key ` set b" "?key d \<in> ?key ` set (map snd c)"
      by force+
    moreover from dist_D have "?key ` set b \<inter> ?key ` set (map snd c) = {}"
      by (simp add: image_image)
    ultimately show ?thesis by (metis IntI empty_iff)
  qed
  moreover have "\<forall>(s, d) \<in> set c. ?key s = ?key d"
    using mergeJoin_pairs [OF merge] by auto
  ultimately show ?thesis
    by (auto simp: res urlKey_URL)
qed

text \<open>This is so on every host whose path separator is the slash.\<close>

lemma compareObjects_disjoint_slash:
  assumes "compareObjects ops (CHR ''/'') S D = (onlySource, onlyDest, common)"
    and "distinct (map (relativeKey ops (CHR ''/'')) S)"
    and "distinct (map (relativeKey ops (CHR ''/'')) D)"
  shows "(\<forall>u \<in> set onlySource. \<forall>v \<in> set onlyDest.
            urlKey ops (CHR ''/'') u \<noteq> urlKey ops (CHR ''/'') v) \<and>
         (\<forall>u \<in> set onlySource. \<forall>pair \<in> set common.
            urlKey ops (CHR ''/'') u \<noteq> relativeKey ops (CHR ''/'') (src pair)) \<and>
         (\<forall>v \<in> set onlyDest. \<forall>pair \<in> set common.
            urlKey ops (CHR ''/'') v \<noteq> relativeKey ops (CHR ''/'') (dst pair)) \<and>
         (\<forall>pair \<in> set common.
            relativeKey ops (CHR ''/'') (src pair) = relativeKey ops (CHR ''/'') (dst pair))"
  by (rule compareObjects_disjoint [OF assms]) (simp add: relativeKey_def urlKey_def ToSlash_def)

text \<open>
  C4 fails on the code: the comparison of the two sorts is on the relative paths as the
  host gives them, without \<^const>\<open>ToSlash\<close>. Where the separator is the backslash, the
  sort puts \<^verbatim>\<open>a0\<close> before the file \<^verbatim>\<open>b\<close> of the directory \<^verbatim>\<open>a\<close>, although
  the key \<^verbatim>\<open>a/b\<close> of the latter is the smaller one in the loop.
\<close>

theorem sortObjects_backslash_order:
  "sortObjects path_ops [win_a_b, win_a0] = [win_a0, win_a_b] \<and>
   relativeKey path_ops Backslash win_a_b < relativeKey path_ops Backslash win_a0"
  by (simp add: sortObjects_def relativeKey_def urlKey_def ToSlash_def win_defs)

text \<open>
  C2 fails on the code, from the same sort: on that host, with one object per key on
  each side, the key \<^verbatim>\<open>a/b\<close> is in the source-only partition and in the
  destination-only partition.
\<close>

theorem compareObjects_backslash_overlap:
  "distinct (map (relativeKey path_ops Backslash) [win_a_b, win_a0]) \<and>
   distinct (map (relativeKey path_ops Backslash) [dest_a_b, dest_a0]) \<and>
   compareObjects path_ops Backslash [win_a_b, win_a0] [dest_a_b, dest_a0]
     = ([URL win_a_b], [URL dest_a_b], [\<lparr>src = win_a0, dst = dest_a0\<rparr>]) \<and>
   relativeKey path_ops Backslash win_a_b = ''a/b'' \<and>
   relativeKey path_ops Backslash dest_a_b = ''a/b''"
  by (simp add: compareObjects_def sortObjects_def compareLoop.simps compareStep_def
        relativeKey_def urlKey_def ToSlash_def Let_def win_defs)

subsection \<open>The skip filter\<close>

text \<open>
  C5, as stated, fails: an object in the Glacier class that is listed on the
  destination side (\<open>verbose\<close> is false there) is skipped and nothing is reported.
\<close>

theorem shouldSkipObject_glacier_destination:
  "IsGlacier sample_object_ops (StorageClass glacier_object) \<and>
   shouldSkipObject sample_object_ops sample_sync glacier_object False = (True, [])"
  by (simp add: shouldSkipObject_def sample_object_ops_def glacier_object_def file_object_def
        IsDir_def)

text \<open>
  C5, amended: every object in the Glacier class is skipped, on both sides, and what
  is reported is this and nothing more. On the destination side (not verbose) nothing
  is reported. On the source side (verbose) nothing is reported for a directory or for
  an object with a cancellation error; for an object that carries another error, that
  error is reported and not the Glacier warning; and for an object without error the
  Glacier warning is reported.
\<close>

theorem shouldSkipObject_glacier:
  assumes "IsGlacier oo (StorageClass object)"
  shows "shouldSkipObject oo s object verbose
       = (True,
          if verbose \<and> \<not> IsDir (Type object) \<and> \<not> IsCancelation oo (Err object)
          then [PrintError (fullCommand s) (op s)
                  (case Err object of
                     Some err \<Rightarrow> err
                   | None \<Rightarrow> glacierError oo object)]
          else [])"
  using assms by (simp add: shouldSkipObject_def split: option.splits)

text \<open>
  A Glacier object listed on the source side, the same object with a listing error, a
  directory in the Glacier class, and the object listed on the destination side.
\<close>

theorem shouldSkipObject_glacier_witness:
  "IsGlacier sample_object_ops (StorageClass glacier_object) \<and>
   shouldSkipObject sample_object_ops download_sync glacier_object True
     = (True, [PrintError ''sync s3://bucket/prefix/* dir/'' ''sync''
                 (''object '' @ [CHR 0x27] @ ''s3://bucket/prefix/cold.bin'' @ [CHR 0x27]
                    @ '' is on Glacier storage'')]) \<and>
   shouldSkipObject sample_object_ops download_sync
       (glacier_object\<lparr>Err := Some ''access denied''\<rparr>) True
     = (True, [PrintError ''sync s3://bucket/prefix/* dir/'' ''sync'' ''access denied'']) \<and>
   shouldSkipObject sample_object_ops download_sync
       (glacier_object\<lparr>Type := Directory\<rparr>) True = (True, []) \<and>
   shouldSkipObject sample_object_ops sample_sync glacier_object False = (True, [])"
  using
    shouldSkipObject_glacier [of sample_object_ops glacier_object download_sync True]
    shouldSkipObject_glacier [of sample_object_ops
      "glacier_object\<lparr>Err := Some ''access denied''\<rparr>" download_sync True]
    shouldSkipObject_glacier [of sample_object_ops
      "glacier_object\<lparr>Type := Directory\<rparr>" download_sync True]
    shouldSkipObject_glacier [of sample_object_ops glacier_object sample_sync False]
  by (simp add: sample_object_ops_def glacier_object_def file_object_def s3_def absolute_def
        IsDir_def glacierError_def download_sync_def download_context_def sample_sync_def
        NewSync_def sample_context_def)

subsection \<open>The plan\<close>

text \<open>What one pass of each loop of \<^const>\<open>planRun\<close> appends, and the end of the plan.\<close>

definition sourceEffect ::
  "'u url_ops \<Rightarrow> 'u generateCommand \<Rightarrow> Sync \<Rightarrow> 'u \<Rightarrow> bool \<Rightarrow> 'u \<Rightarrow> 'u effect"
where
  "sourceEffect ops gen s dsturl isBatch srcurl =
     (case gen ''cp'' defaultFlags [srcurl, generateDestinationURL ops srcurl dsturl isBatch] of
        Inl err \<Rightarrow>
          PrintDebug (op s) err [srcurl, generateDestinationURL ops srcurl dsturl isBatch]
      | Inr command \<Rightarrow> Fprintln command)"

definition commonEffect ::
  "'u generateCommand \<Rightarrow> Sync \<Rightarrow> 'u SyncStrategy \<Rightarrow> 'u ObjectPair \<Rightarrow> 'u effect"
where
  "commonEffect gen s strategy pair =
     (case strategy (src pair) (dst pair) of
        Some err \<Rightarrow> PrintDebug (op s) err [URL (src pair), URL (dst pair)]
      | None \<Rightarrow>
          (case gen ''cp'' defaultFlags [URL (src pair), URL (dst pair)] of
             Inl err \<Rightarrow> PrintDebug (op s) err [URL (src pair), URL (dst pair)]
           | Inr command \<Rightarrow> Fprintln command))"

definition deleteEffects :: "'u generateCommand \<Rightarrow> Sync \<Rightarrow> 'u list \<Rightarrow> 'u effect list" where
  "deleteEffects gen s onlyDest =
     (if delete s \<and> onlyDest \<noteq> [] then
        [case gen ''rm'' defaultFlags onlyDest of
           Inl err \<Rightarrow> PrintDebug (op s) err onlyDest
         | Inr command \<Rightarrow> Fprintln command]
      else [])"

lemma planOnlySource_effects:
  "planOnlySource ops gen s dsturl isBatch onlySource w
     = w @ map (sourceEffect ops gen s dsturl isBatch) onlySource"
  by (induction onlySource arbitrary: w) (simp_all add: sourceEffect_def Let_def split: sum.splits)

lemma planCommon_effects:
  "planCommon gen s strategy common w = w @ map (commonEffect gen s strategy) common"
  by (induction common arbitrary: w)
     (simp_all add: commonEffect_def Let_def split: sum.splits option.splits)

lemma planRun_effects:
  "planRun ops gen s onlySource onlyDest common dsturl strategy isBatch
     = map (sourceEffect ops gen s dsturl isBatch) onlySource
       @ map (commonEffect gen s strategy) common
       @ deleteEffects gen s onlyDest"
  by (simp add: planRun_def planOnlySource_effects planCommon_effects deleteEffects_def Let_def
        split: sum.splits)


text \<open>A written line comes from a successful generation with \<^const>\<open>defaultFlags\<close>.\<close>

lemma sourceEffect_written:
  assumes "sourceEffect ops gen s dsturl isBatch srcurl = Fprintln command"
  shows "\<exists>urls. gen ''cp'' defaultFlags urls = Inr command"
  using assms by (auto simp: sourceEffect_def split: sum.splits)

lemma commonEffect_written:
  assumes "commonEffect gen s strategy pair = Fprintln command"
  shows "\<exists>urls. gen ''cp'' defaultFlags urls = Inr command"
  using assms by (auto simp: commonEffect_def split: sum.splits option.splits)

lemma deleteEffects_written:
  assumes "Fprintln command \<in> set (deleteEffects gen s onlyDest)"
  shows "gen ''rm'' defaultFlags onlyDest = Inr command"
  using assms by (auto simp: deleteEffects_def split: sum.splits if_splits)









subsection \<open>The flags of the plan\<close>

text \<open>
  The plan does not change when the generator is made to see \<^const>\<open>defaultFlags\<close>
  whatever flags it is given: every call of the generator passes \<^const>\<open>defaultFlags\<close>.
\<close>

lemma sourceEffect_flags:
  "sourceEffect ops (\<lambda>name flags urls. gen name defaultFlags urls) s dsturl isBatch
     = sourceEffect ops gen s dsturl isBatch"
  by (simp add: sourceEffect_def fun_eq_iff)

lemma commonEffect_flags:
  "commonEffect (\<lambda>name flags urls. gen name defaultFlags urls) s strategy
     = commonEffect gen s strategy"
  by (simp add: commonEffect_def fun_eq_iff)

lemma deleteEffects_flags:
  "deleteEffects (\<lambda>name flags urls. gen name defaultFlags urls) s onlyDest
     = deleteEffects gen s onlyDest"
  by (simp add: deleteEffects_def)

text \<open>
  C10: the flags of every call of \<^verbatim>\<open>generateCommand\<close> in \<^const>\<open>planRun\<close> are
  \<^const>\<open>defaultFlags\<close>, in which \<^verbatim>\<open>raw\<close> is true: the plan is the same when the
  generator is given \<^const>\<open>defaultFlags\<close> in place of its flags argument, and every
  written command is a \<^verbatim>\<open>cp\<close> generated with these flags or the \<^verbatim>\<open>rm\<close> of the
  destination-only URLs generated with these flags.
\<close>

theorem planRun_raw:
  "defaultFlags ''raw'' = Some (FlagBool True) \<and>
   planRun ops (\<lambda>name flags urls. gen name defaultFlags urls) s onlySource onlyDest common
       dsturl strategy isBatch
     = planRun ops gen s onlySource onlyDest common dsturl strategy isBatch \<and>
   (\<forall>command.
      Fprintln command
        \<in> set (planRun ops gen s onlySource onlyDest common dsturl strategy isBatch) \<longrightarrow>
      (\<exists>urls. gen ''cp'' defaultFlags urls = Inr command)
        \<or> gen ''rm'' defaultFlags onlyDest = Inr command)"
proof (intro conjI allI impI)
  show "defaultFlags ''raw'' = Some (FlagBool True)"
    by (simp add: defaultFlags_def)
  show "planRun ops (\<lambda>name flags urls. gen name defaultFlags urls) s onlySource onlyDest common
          dsturl strategy isBatch
      = planRun ops gen s onlySource onlyDest common dsturl strategy isBatch"
    by (simp add: planRun_effects sourceEffect_flags commonEffect_flags deleteEffects_flags)
next
  fix command
  assume "Fprintln command
    \<in> set (planRun ops gen s onlySource onlyDest common dsturl strategy isBatch)"
  then consider
      (source) srcurl where "sourceEffect ops gen s dsturl isBatch srcurl = Fprintln command"
    | (common) pair where "commonEffect gen s strategy pair = Fprintln command"
    | (delete) "Fprintln command \<in> set (deleteEffects gen s onlyDest)"
    by (auto simp: planRun_effects)
  then show "(\<exists>urls. gen ''cp'' defaultFlags urls = Inr command)
      \<or> gen ''rm'' defaultFlags onlyDest = Inr command"
  proof cases
    case source
    then show ?thesis by (blast dest: sourceEffect_written)
  next
    case common
    then show ?thesis by (blast dest: commonEffect_written)
  next
    case delete
    then show ?thesis by (blast dest: deleteEffects_written)
  qed
qed

text \<open>
  In the plan of the example scenario the delete command is written with the flag; the
  same generator without the flag gives another text.
\<close>

theorem planRun_raw_witness:
  "Fprintln ''rm --raw=true prefix/old.txt''
     \<in> set (planRun path_ops sample_generateCommand sample_sync [URL b_txt, URL c_txt]
              [URL dest_old_txt] [\<lparr>src = a_txt, dst = dest_a_txt\<rparr>]
              (s3 ''bucket'' ''prefix/'' []) sync_required True) \<and>
   sample_generateCommand ''rm'' defaultFlags [URL dest_old_txt]
     = Inr ''rm --raw=true prefix/old.txt'' \<and>
   sample_generateCommand ''rm'' Map.empty [URL dest_old_txt] = Inr ''rm prefix/old.txt''"
  using planRun_raw [of path_ops sample_generateCommand sample_sync "[URL b_txt, URL c_txt]"
      "[URL dest_old_txt]" "[\<lparr>src = a_txt, dst = dest_a_txt\<rparr>]" "s3 ''bucket'' ''prefix/'' []"
      sync_required True]
  by (simp add: planRun_def generateDestinationURL_def sync_required_def
        sample_generateCommand_def defaultFlags_def
        sample_sync_def NewSync_def sample_context_def sample_defs suffix_to_prefix)

subsection \<open>The two listings\<close>

text \<open>
  The loop over a listing keeps the objects that the filter does not skip, and the
  filter prints nothing when it is not verbose.
\<close>

lemma collectObjects_filter:
  "collectObjects oo s verbose listing (objects, out)
     = (objects @ filter (\<lambda>object. \<not> fst (shouldSkipObject oo s object verbose)) listing,
        out @ concat (map (\<lambda>object. snd (shouldSkipObject oo s object verbose)) listing))"
proof (induction listing arbitrary: objects out)
  case Nil
  show ?case by simp
next
  case (Cons object rest)
  show ?case
    by (cases "shouldSkipObject oo s object verbose") (simp add: Cons.IH)
qed

lemma shouldSkipObject_quiet: "snd (shouldSkipObject oo s object False) = []"
  by (simp add: shouldSkipObject_def split: option.splits)

text \<open>
  C9: for the \<^verbatim>\<open>Sync\<close> made from any command line, when the function returns the
  two lists, the destination objects are the filtered listing of the destination client
  called with \<^verbatim>\<open>followSymlinks\<close> false, whatever the flag
  \<^verbatim>\<open>no-follow-symlinks\<close> is, and the source objects are the filtered listing of the
  source client called with the negation of that flag.
\<close>

theorem getSourceAndDestinationObjects_followSymlinks:
  assumes "getSourceAndDestinationObjects sto oo (NewSync commandFromContext c) srcurl dsturl
             = Inr (sourceObjects, destObjects, out)"
  shows "\<exists>sourceClient destClient destObjectsURL.
      NewClient sto srcurl = Inr sourceClient \<and>
      NewClient sto dsturl = Inr destClient \<and>
      url_New sto (if suffix ''/'' (ArgsGet c 1) then ArgsGet c 1 @ ''*''
                   else ArgsGet c 1 @ ''/*'') = Inr destObjectsURL \<and>
      sourceObjects
        = filter (\<lambda>object. \<not> fst (shouldSkipObject oo (NewSync commandFromContext c) object True))
            (sourceClient srcurl (\<not> Bool c ''no-follow-symlinks'')) \<and>
      destObjects
        = filter (\<lambda>object. \<not> fst (shouldSkipObject oo (NewSync commandFromContext c) object False))
            (destClient destObjectsURL False)"
  using assms
  by (auto simp: getSourceAndDestinationObjects_def collectObjects_filter NewSync_def Let_def
      split: sum.splits)

text \<open>
  A command line without \<^verbatim>\<open>no-follow-symlinks\<close>: the source listing follows the
  link, the destination listing does not.
\<close>

theorem getSourceAndDestinationObjects_followSymlinks_witness:
  "getSourceAndDestinationObjects sample_storage sample_object_ops
       (NewSync (\<lambda>c. ''sync'') sample_context) (local_file ''dir/'' [])
       (s3 ''bucket'' ''prefix/'' [])
     = Inr ([a_txt, b_txt, c_txt, linked_txt], [dest_a_txt, dest_old_txt], []) \<and>
   (\<exists>sourceClient destClient destObjectsURL.
      NewClient sample_storage (local_file ''dir/'' []) = Inr sourceClient \<and>
      NewClient sample_storage (s3 ''bucket'' ''prefix/'' []) = Inr destClient \<and>
      url_New sample_storage ''s3://bucket/prefix/*'' = Inr destObjectsURL \<and>
      [a_txt, b_txt, c_txt, linked_txt]
        = filter (\<lambda>object. \<not> fst (shouldSkipObject sample_object_ops
                                  (NewSync (\<lambda>c. ''sync'') sample_context) object True))
            (sourceClient (local_file ''dir/'' []) True) \<and>
      [dest_a_txt, dest_old_txt]
        = filter (\<lambda>object. \<not> fst (shouldSkipObject sample_object_ops
                                  (NewSync (\<lambda>c. ''sync'') sample_context) object False))
            (destClient destObjectsURL False))"
proof -
  have run: "getSourceAndDestinationObjects sample_storage sample_object_ops
       (NewSync (\<lambda>c. ''sync'') sample_context) (local_file ''dir/'' [])
       (s3 ''bucket'' ''prefix/'' [])
     = Inr ([a_txt, b_txt, c_txt, linked_txt], [dest_a_txt, dest_old_txt], [])"
    by (simp add: getSourceAndDestinationObjects_def sample_storage_def sample_client_def
        sample_object_ops_def shouldSkipObject_def IsDir_def NewSync_def sample_context_def
        ArgsGet_def suffix_to_prefix linked_txt_def dest_linked_txt_def sample_defs)
  have args: "ArgsGet sample_context 1 = ''s3://bucket/prefix/''"
    "\<not> Bool sample_context ''no-follow-symlinks''"
    by (simp_all add: ArgsGet_def sample_context_def)
  from getSourceAndDestinationObjects_followSymlinks [OF run] run args
  show ?thesis by (simp add: suffix_to_prefix)
qed


end
